theory Spec2Isabelle
  imports Main "HOL-Library.Monad_Syntax"
begin

unbundle bit_operations_syntax

section \<open>Integers and sentinels\<close>

text \<open>
  Keys, storage positions and the counters of the table are \<open>int64\<close> in
  \<^verbatim>\<open>src/lib/symbol-table.cc\<close>. They are modelled by \<open>int\<close>; the two places where the
  code computes beyond a stored value (\<open>key + 1\<close> in \<open>AddSymbol\<close>, \<open>available_key_ - 1\<close>
  in \<open>RemoveSymbol\<close>) are reduced to 64 bits in two's complement by \<open>int64_of\<close>, which is
  what the compiled code computes. Sizes of vectors (\<open>size_t\<close>) are \<open>nat\<close>; a
  \<open>std::vector\<close> never holds \<open>2^63\<close> elements, so the cast of a size to \<open>int64\<close> is
  written \<open>int\<close>.
\<close>

definition int64_of :: "int \<Rightarrow> int" where
  "int64_of x = (x + 2 ^ 63) mod 2 ^ 64 - 2 ^ 63"

definition is_int64 :: "int \<Rightarrow> bool" where
  "is_int64 x \<longleftrightarrow> - (2 ^ 63) \<le> x \<and> x < 2 ^ 63"

text \<open>
  Modelled from the spec: the constants \<open>kNoSymbol\<close> and
  \<open>DenseSymbolMap::kEmptyBucket\<close> are declared in \<^verbatim>\<open>fst/symbol-table.h\<close>, which is not
  among the sources. The spec calls the first a reserved sentinel key that is never valid
  and the second a marker for an empty bucket distinct from any valid position; both are
  \<open>-1\<close>.
\<close>

definition kNoSymbol :: int where
  "kNoSymbol = - 1"

definition kEmptyBucket :: int where
  "kEmptyBucket = - 1"

section \<open>The string interning index (\<open>DenseSymbolMap\<close>)\<close>

text \<open>
  \<open>std::hash<std::string>\<close> is implementation defined: every function below takes
  the hash \<open>h\<close> as its first argument, and every theorem holds for every hash.
\<close>

type_synonym str_hash = "string \<Rightarrow> nat"

record DenseSymbolMap =
  dsm_symbols :: "string list"
  buckets :: "int list"
  hash_mask :: nat

text \<open>The constructor: sixteen empty buckets.\<close>

definition DenseSymbolMap_new :: DenseSymbolMap where
  "DenseSymbolMap_new =
     \<lparr> dsm_symbols = [], buckets = replicate (2 ^ 4) kEmptyBucket, hash_mask = 2 ^ 4 - 1 \<rparr>"

definition Size :: "DenseSymbolMap \<Rightarrow> nat" where
  "Size m = length (dsm_symbols m)"

definition GetSymbol :: "DenseSymbolMap \<Rightarrow> nat \<Rightarrow> string" where
  "GetSymbol m idx = dsm_symbols m ! idx"

definition GetHash :: "str_hash \<Rightarrow> DenseSymbolMap \<Rightarrow> string \<Rightarrow> nat" where
  "GetHash h m key = h key AND hash_mask m"

text \<open>
  The probing loop of \<open>Rehash\<close>: \<^verbatim>\<open>while (buckets_[idx] != kEmptyBucket) idx = (idx + 1) & hash_mask_;\<close>
  It does not return when no bucket is empty, hence the option.
\<close>

partial_function (option) Rehash_probe :: "int list \<Rightarrow> nat \<Rightarrow> nat \<Rightarrow> nat option" where
  "Rehash_probe bs msk idx =
     (if bs ! idx \<noteq> kEmptyBucket then Rehash_probe bs msk ((idx + 1) AND msk)
      else Some idx)"

declare Rehash_probe.simps [code]

text \<open>The \<open>for\<close> loop of \<open>Rehash\<close> over the positions \<open>i = 0, ..., Size() - 1\<close>.\<close>

fun Rehash_fill :: "str_hash \<Rightarrow> string list \<Rightarrow> nat \<Rightarrow> nat list \<Rightarrow> int list \<Rightarrow> int list option" where
  "Rehash_fill h syms msk [] bs = Some bs"
| "Rehash_fill h syms msk (i # is) bs =
     (case Rehash_probe bs msk (h (syms ! i) AND msk) of
        None \<Rightarrow> None
      | Some idx \<Rightarrow> Rehash_fill h syms msk is (bs[idx := int i]))"

definition Rehash :: "str_hash \<Rightarrow> DenseSymbolMap \<Rightarrow> nat \<Rightarrow> DenseSymbolMap option" where
  "Rehash h m num_buckets =
     (let bs = replicate num_buckets kEmptyBucket;
          msk = num_buckets - 1
      in case Rehash_fill h (dsm_symbols m) msk [0..<length (dsm_symbols m)] bs of
           None \<Rightarrow> None
         | Some bs' \<Rightarrow> Some (m\<lparr>buckets := bs', hash_mask := msk\<rparr>))"

text \<open>
  The probing loop shared by \<open>InsertOrFind\<close> and \<open>Find\<close>: it returns \<open>Inl\<close> of the
  stored position when a bucket holds the key, and \<open>Inr\<close> of the index of the first empty
  bucket otherwise.
\<close>

partial_function (option) probe ::
  "string list \<Rightarrow> int list \<Rightarrow> nat \<Rightarrow> string \<Rightarrow> nat \<Rightarrow> (int + nat) option" where
  "probe syms bs msk key idx =
     (if bs ! idx \<noteq> kEmptyBucket then
        (let stored_value = bs ! idx in
         if syms ! nat stored_value = key then Some (Inl stored_value)
         else probe syms bs msk key ((idx + 1) AND msk))
      else Some (Inr idx))"

declare probe.simps [code]

text \<open>
  \<open>InsertOrFind\<close> grows the table when \<open>Size() >= 0.75 * buckets_.size()\<close>; the
  comparison is in \<open>float\<close>, and is the integer comparison below as long as the size is
  exactly representable (below \<open>2^24\<close>). The result is the map after the call, the position
  and the flag "newly inserted".
\<close>

definition InsertOrFind ::
  "str_hash \<Rightarrow> DenseSymbolMap \<Rightarrow> string \<Rightarrow> (DenseSymbolMap \<times> int \<times> bool) option" where
  "InsertOrFind h m key =
     do {
       m1 \<leftarrow> (if 3 * length (buckets m) \<le> 4 * Size m
              then Rehash h m (length (buckets m) * 2) else Some m);
       r \<leftarrow> probe (dsm_symbols m1) (buckets m1) (hash_mask m1) key (GetHash h m1 key);
       (case r of
          Inl stored_value \<Rightarrow> Some (m1, stored_value, False)
        | Inr idx \<Rightarrow>
            let next = Size m1 in
            Some (m1\<lparr>buckets := (buckets m1)[idx := int next],
                     dsm_symbols := dsm_symbols m1 @ [key]\<rparr>, int next, True))
     }"

text \<open>\<open>DenseSymbolMap::Find\<close>: the stored position, or the empty marker.\<close>

definition DenseSymbolMap_Find :: "str_hash \<Rightarrow> DenseSymbolMap \<Rightarrow> string \<Rightarrow> int option" where
  "DenseSymbolMap_Find h m key =
     do {
       r \<leftarrow> probe (dsm_symbols m) (buckets m) (hash_mask m) key (h key AND hash_mask m);
       (case r of Inl stored_value \<Rightarrow> Some stored_value
                | Inr idx \<Rightarrow> Some (buckets m ! idx))
     }"

text \<open>\<open>DenseSymbolMap::RemoveSymbol\<close>: erase the element, rebuild the buckets.\<close>

definition erase_at :: "'a list \<Rightarrow> nat \<Rightarrow> 'a list" where
  "erase_at xs idx = take idx xs @ drop (Suc idx) xs"

definition DenseSymbolMap_RemoveSymbol ::
  "str_hash \<Rightarrow> DenseSymbolMap \<Rightarrow> nat \<Rightarrow> DenseSymbolMap option" where
  "DenseSymbolMap_RemoveSymbol h m idx =
     Rehash h (m\<lparr>dsm_symbols := erase_at (dsm_symbols m) idx\<rparr>) (length (buckets m))"

section \<open>The key map (\<open>std::map<int64, int64>\<close>)\<close>

text \<open>
  \<open>key_map_\<close> is iterated in ascending key order by the checksum and by \<open>Write\<close>, so it
  is an association list kept sorted by key: \<open>map_of\<close> is \<open>find\<close>, \<open>map_assign\<close> is
  \<^verbatim>\<open>key_map_[k] = v\<close>, \<open>map_erase\<close> is \<open>erase\<close>.
\<close>

fun map_assign :: "(int \<times> int) list \<Rightarrow> int \<Rightarrow> int \<Rightarrow> (int \<times> int) list" where
  "map_assign [] k v = [(k, v)]"
| "map_assign ((k', v') # m) k v =
     (if k < k' then (k, v) # (k', v') # m
      else if k = k' then (k, v) # m
      else (k', v') # map_assign m k v)"

definition map_erase :: "(int \<times> int) list \<Rightarrow> int \<Rightarrow> (int \<times> int) list" where
  "map_erase m k = filter (\<lambda>(k', v). k' \<noteq> k) m"

section \<open>The table (\<open>SymbolTableImpl\<close>)\<close>

record SymbolTableImpl =
  name :: string
  available_key :: int
  dense_key_limit :: int
  symbols :: DenseSymbolMap
  idx_key :: "int list"
  key_map :: "(int \<times> int) list"
  check_sum_finalized :: bool
  check_sum_string :: string
  labeled_check_sum_string :: string

text \<open>
  Modelled from the spec: the constructor and \<open>GetNthKey\<close> are defined in
  \<^verbatim>\<open>fst/symbol-table.h\<close>, which is not among the sources. The spec creates a table empty,
  with a name; it resolves a storage position to its key by the identity inside the dense
  range and by the inverse of the sparse map (\<open>idx_key_\<close>) at or beyond the dense limit.
\<close>

definition SymbolTableImpl_new :: "string \<Rightarrow> SymbolTableImpl" where
  "SymbolTableImpl_new nm =
     \<lparr> name = nm, available_key = 0, dense_key_limit = 0, symbols = DenseSymbolMap_new,
       idx_key = [], key_map = [], check_sum_finalized = False,
       check_sum_string = [], labeled_check_sum_string = [] \<rparr>"

definition GetNthKey :: "SymbolTableImpl \<Rightarrow> int \<Rightarrow> int" where
  "GetNthKey t pos =
     (if pos < 0 \<or> int (Size (symbols t)) \<le> pos then kNoSymbol
      else if pos < dense_key_limit t then pos
      else idx_key t ! nat (pos - dense_key_limit t))"

text \<open>\<open>SymbolTableImpl::Find(int64 key)\<close>; the empty string is "not found".\<close>

definition Find :: "SymbolTableImpl \<Rightarrow> int \<Rightarrow> string" where
  "Find t key =
     (case (if key < 0 \<or> dense_key_limit t \<le> key then map_of (key_map t) key else Some key) of
        None \<Rightarrow> []
      | Some idx \<Rightarrow>
          if idx < 0 \<or> int (Size (symbols t)) \<le> idx then []
          else GetSymbol (symbols t) (nat idx))"

text \<open>
  \<open>SymbolTableImpl::AddSymbol(symbol, key)\<close>: the table after the call and the key
  returned.
\<close>

definition AddSymbol ::
  "str_hash \<Rightarrow> SymbolTableImpl \<Rightarrow> string \<Rightarrow> int \<Rightarrow> (SymbolTableImpl \<times> int) option" where
  "AddSymbol h t symbol key =
     (if key = kNoSymbol then Some (t, key)
      else
        do {
          (m, pos, inserted) \<leftarrow> InsertOrFind h (symbols t) symbol;
          let t1 = t\<lparr>symbols := m\<rparr>;
          if \<not> inserted then
            (let key_already = GetNthKey t1 pos in
             if key_already = key then Some (t1, key) else Some (t1, key_already))
          else
            (let t2 = (if int64_of (key + 1) = int (Size m) \<and> key = dense_key_limit t1
                       then t1\<lparr>dense_key_limit := dense_key_limit t1 + 1\<rparr>
                       else t1\<lparr>idx_key := idx_key t1 @ [key],
                               key_map := map_assign (key_map t1) key (int (Size m) - 1)\<rparr>);
                 t3 = (if available_key t2 \<le> key
                       then t2\<lparr>available_key := int64_of (key + 1)\<rparr> else t2)
             in Some (t3\<lparr>check_sum_finalized := False\<rparr>, key))
        })"

text \<open>\<open>AddSymbol(symbol)\<close> of the header: the next available key is used.\<close>

definition AddSymbol_auto ::
  "str_hash \<Rightarrow> SymbolTableImpl \<Rightarrow> string \<Rightarrow> (SymbolTableImpl \<times> int) option" where
  "AddSymbol_auto h t symbol = AddSymbol h t symbol (available_key t)"

text \<open>\<open>std::vector::resize\<close>: truncate, or pad with zeros.\<close>

definition resize :: "int list \<Rightarrow> nat \<Rightarrow> int list" where
  "resize xs n = take n xs @ replicate (n - length xs) 0"

text \<open>
  \<open>SymbolTableImpl::RemoveSymbol(key)\<close>. The \<open>for\<close> loops are folds over their index
  ranges, in the order the code runs them. The loop of the \<open>else\<close> branch starts at the
  \<open>size_t\<close> value \<open>idx - dense_key_limit_\<close>; when that difference is negative the
  unsigned start lies beyond every index and the loop body does not run.
\<close>

definition RemoveSymbol :: "str_hash \<Rightarrow> SymbolTableImpl \<Rightarrow> int \<Rightarrow> SymbolTableImpl option" where
  "RemoveSymbol h t key =
     (case (if key < 0 \<or> dense_key_limit t \<le> key then
              (case map_of (key_map t) key of
                 None \<Rightarrow> None
               | Some idx \<Rightarrow> Some (idx, t\<lparr>key_map := map_erase (key_map t) key\<rparr>))
            else Some (key, t)) of
        None \<Rightarrow> Some t
      | Some (idx, t1) \<Rightarrow>
          if idx < 0 \<or> int (Size (symbols t1)) \<le> idx then Some t1
          else
            do {
              m \<leftarrow> DenseSymbolMap_RemoveSymbol h (symbols t1) (nat idx);
              let t2 = t1\<lparr>symbols := m,
                         key_map := map (\<lambda>(k, v). (k, if idx < v then v - 1 else v)) (key_map t1)\<rparr>;
              let dkl = dense_key_limit t2;
              let t3 =
                (if 0 \<le> key \<and> key < dkl then
                   (let new_dense_key_limit = key;
                        km = foldl (\<lambda>km i. map_assign km i (i - 1)) (key_map t2) [key + 1..dkl - 1];
                        ik0 = resize (idx_key t2) (nat (int (Size m) - new_dense_key_limit));
                        ik1 = foldl (\<lambda>ik i. ik[nat (i - new_dense_key_limit - 1) := ik ! nat (i - dkl)])
                                ik0 (rev [dkl..int (Size m)]);
                        ik2 = foldl (\<lambda>ik i. ik[nat (i - new_dense_key_limit) := i + 1])
                                ik1 [new_dense_key_limit..dkl - 2]
                    in t2\<lparr>key_map := km, idx_key := ik2, dense_key_limit := new_dense_key_limit\<rparr>)
                 else
                   t2\<lparr>idx_key :=
                        butlast (foldl (\<lambda>ik i. ik[i := ik ! (i + 1)]) (idx_key t2)
                                   (if idx < dkl then []
                                    else [nat (idx - dkl)..<length (idx_key t2) - 1]))\<rparr>);
              Some (if key = int64_of (available_key t3 - 1) then t3\<lparr>available_key := key\<rparr> else t3)
            })"

section \<open>Checksums\<close>

text \<open>
  The class \<open>CheckSummer\<close> is declared in \<^verbatim>\<open>fst/util.h\<close>, which is not among the sources.
  A summer is the sequence of its \<open>Update\<close> calls, and \<open>Digest\<close> is a function \<open>D\<close> of
  that sequence; \<open>D\<close> is the first argument of every function that computes a digest, and
  every theorem holds for every \<open>D\<close>.
\<close>

type_synonym check_summer = "string list"
type_synonym digest = "string list \<Rightarrow> string"

definition Update :: "check_summer \<Rightarrow> string \<Rightarrow> check_summer" where
  "Update cs bytes = cs @ [bytes]"

text \<open>\<^verbatim>\<open>line << i\<close> for an \<open>int64\<close>: the decimal digits, after a minus sign if negative.\<close>

fun digits_of :: "nat \<Rightarrow> string" where
  "digits_of n =
     (if n < 10 then [char_of (48 + n)]
      else digits_of (n div 10) @ [char_of (48 + n mod 10)])"

definition show_int :: "int \<Rightarrow> string" where
  "show_int i = (if i < 0 then CHR ''-'' # digits_of (nat (- i)) else digits_of (nat i))"

text \<open>
  \<open>SymbolTableImpl::MaybeRecomputeCheckSum\<close>. The locks are not modelled: the model is
  sequential. \<^verbatim>\<open>check_sum.Update("", 1)\<close> feeds the terminating zero byte of the literal.
\<close>

definition MaybeRecomputeCheckSum :: "digest \<Rightarrow> SymbolTableImpl \<Rightarrow> SymbolTableImpl" where
  "MaybeRecomputeCheckSum D t =
     (if check_sum_finalized t then t
      else
        let check_sum =
              foldl (\<lambda>cs i. Update (Update cs (GetSymbol (symbols t) i)) [CHR 0x00])
                [] [0..<Size (symbols t)];
            labeled_check_sum =
              foldl (\<lambda>cs i. Update cs (GetSymbol (symbols t) (nat i) @ [CHR 0x09] @ show_int i))
                [] [0..dense_key_limit t - 1];
            labeled_check_sum =
              foldl (\<lambda>cs (k, v).
                       if k < dense_key_limit t then cs
                       else Update cs (GetSymbol (symbols t) (nat v) @ [CHR 0x09] @ show_int k))
                labeled_check_sum (key_map t)
        in t\<lparr>check_sum_string := D check_sum,
              labeled_check_sum_string := D labeled_check_sum,
              check_sum_finalized := True\<rparr>)"

text \<open>
  Modelled from the spec: \<open>CheckSum\<close> and \<open>LabeledCheckSum\<close> are defined in
  \<^verbatim>\<open>fst/symbol-table.h\<close>, which is not among the sources. The spec computes both digests
  lazily, on the first access after invalidation, and caches them: a query runs
  \<open>MaybeRecomputeCheckSum\<close> and returns the cached string.
\<close>

definition CheckSum :: "digest \<Rightarrow> SymbolTableImpl \<Rightarrow> string" where
  "CheckSum D t = check_sum_string (MaybeRecomputeCheckSum D t)"

definition LabeledCheckSum :: "digest \<Rightarrow> SymbolTableImpl \<Rightarrow> string" where
  "LabeledCheckSum D t = labeled_check_sum_string (MaybeRecomputeCheckSum D t)"

text \<open>
  \<open>CompatSymbols\<close>: the flag \<open>FLAGS_fst_compat_symbols\<close> is an argument, a null pointer is
  \<open>None\<close>. The warning is only logged; the log is not modelled.
\<close>

definition CompatSymbols ::
  "digest \<Rightarrow> bool \<Rightarrow> SymbolTableImpl option \<Rightarrow> SymbolTableImpl option \<Rightarrow> bool \<Rightarrow> bool" where
  "CompatSymbols D FLAGS_fst_compat_symbols syms1 syms2 warning =
     (if \<not> FLAGS_fst_compat_symbols then True
      else
        (case (syms1, syms2) of
           (Some t1, Some t2) \<Rightarrow>
             if LabeledCheckSum D t1 \<noteq> LabeledCheckSum D t2 then False else True
         | _ \<Rightarrow> True))"

section \<open>Binary persistence\<close>

text \<open>
  Modelled from the spec: \<open>WriteType\<close> and \<open>ReadType\<close> are defined in \<^verbatim>\<open>fst/util.h\<close>,
  which is not among the sources. The spec lays a table out as
  \<^verbatim>\<open>magic:int32 | name:string | availableKey:int64 | count:int64 | (symbol:string, key:int64){count}\<close>;
  a stream is the list of the items written, and reading an item fails (and sets the
  stream's fail bit, which is sticky) when the stream is exhausted or the next item has
  another type.
\<close>

datatype item = Int32 int | Int64 int | Str string

record istream =
  items :: "item list"
  failbit :: bool

definition kSymbolTableMagicNumber :: int where
  "kSymbolTableMagicNumber = 2125658996"

definition ReadType_int32 :: "istream \<Rightarrow> int \<Rightarrow> istream \<times> int" where
  "ReadType_int32 strm old =
     (if failbit strm then (strm, old)
      else case items strm of
             Int32 v # rest \<Rightarrow> (strm\<lparr>items := rest\<rparr>, v)
           | _ \<Rightarrow> (strm\<lparr>failbit := True\<rparr>, old))"

definition ReadType_int64 :: "istream \<Rightarrow> int \<Rightarrow> istream \<times> int" where
  "ReadType_int64 strm old =
     (if failbit strm then (strm, old)
      else case items strm of
             Int64 v # rest \<Rightarrow> (strm\<lparr>items := rest\<rparr>, v)
           | _ \<Rightarrow> (strm\<lparr>failbit := True\<rparr>, old))"

definition ReadType_string :: "istream \<Rightarrow> string \<Rightarrow> istream \<times> string" where
  "ReadType_string strm old =
     (if failbit strm then (strm, old)
      else case items strm of
             Str v # rest \<Rightarrow> (strm\<lparr>items := rest\<rparr>, v)
           | _ \<Rightarrow> (strm\<lparr>failbit := True\<rparr>, old))"

text \<open>
  \<open>SymbolTableImpl::Write\<close>: the items written. An in-memory stream does not fail, so the
  flag returned is \<open>true\<close>.
\<close>

definition Write :: "SymbolTableImpl \<Rightarrow> item list \<times> bool" where
  "Write t =
     (let strm = [Int32 kSymbolTableMagicNumber, Str (name t), Int64 (available_key t),
                  Int64 (int (Size (symbols t)))];
          strm = foldl (\<lambda>strm i. strm @ [Str (GetSymbol (symbols t) (nat i)), Int64 i])
                   strm [0..dense_key_limit t - 1];
          strm = foldl (\<lambda>strm (k, v). strm @ [Str (GetSymbol (symbols t) (nat v)), Int64 k])
                   strm (key_map t)
      in (strm, True))"

text \<open>
  \<open>SymbolTableImpl::Read\<close>. The outer option is \<open>None\<close> when the call does not return; the
  inner one is the pointer returned, \<open>None\<close> for \<open>nullptr\<close>. \<open>ShrinkToFit\<close> releases
  capacity and changes nothing in the model.
\<close>

fun Read_loop ::
  "str_hash \<Rightarrow> nat \<Rightarrow> SymbolTableImpl \<Rightarrow> istream \<Rightarrow> string \<Rightarrow> int \<Rightarrow> SymbolTableImpl option option" where
  "Read_loop h 0 impl strm symbol key = Some (Some impl)"
| "Read_loop h (Suc n) impl strm symbol key =
     (let (strm, symbol) = ReadType_string strm symbol;
          (strm, key) = ReadType_int64 strm key
      in if failbit strm then Some None
         else case AddSymbol h impl symbol key of
                None \<Rightarrow> None
              | Some (impl, _) \<Rightarrow> Read_loop h n impl strm symbol key)"

definition Read :: "str_hash \<Rightarrow> item list \<Rightarrow> SymbolTableImpl option option" where
  "Read h is =
     (let strm = \<lparr>items = is, failbit = False\<rparr>;
          (strm, magic_number) = ReadType_int32 strm 0
      in if failbit strm then Some None
         else
           let (strm, nm) = ReadType_string strm [];
               impl = SymbolTableImpl_new nm;
               (strm, ak) = ReadType_int64 strm (available_key impl);
               impl = impl\<lparr>available_key := ak\<rparr>;
               (strm, size) = ReadType_int64 strm 0
           in if failbit strm then Some None
              else Read_loop h (nat size) (impl\<lparr>check_sum_finalized := False\<rparr>) strm [] 0)"

section \<open>Text input\<close>

text \<open>
  \<^verbatim>\<open>strm.getline(line, kLineLen)\<close> of the C++ standard library, on the rest of the input:
  it fails at the end of the input, and when \<open>kLineLen - 1\<close> characters are stored and the
  next character is neither the end of the input nor the newline; otherwise it yields the
  line without its newline, and the rest of the input.
\<close>

definition kLineLen :: nat where
  "kLineLen = 8096"

definition getline :: "string \<Rightarrow> nat \<Rightarrow> (string \<times> string) option" where
  "getline strm count =
     (if strm = [] then None
      else
        let line = takeWhile (\<lambda>c. c \<noteq> CHR 0x0A) strm in
        if count \<le> length line then None
        else Some (line, drop (Suc (length line)) strm))"

text \<open>The buffer is a C string: it ends at its first zero byte.\<close>

definition c_str :: "string \<Rightarrow> string" where
  "c_str s = takeWhile (\<lambda>c. c \<noteq> CHR 0x00) s"

text \<open>
  Modelled from the spec: \<open>SplitString\<close> is defined in \<^verbatim>\<open>fst/util.cc\<close>, which is not among
  the sources. With \<open>omit_empty_strings\<close> set, the columns of a line are its maximal runs
  of characters that are not separators (so trailing separators are trimmed, and a blank
  line has no column).
\<close>

function SplitString :: "string \<Rightarrow> string \<Rightarrow> string list" where
  "SplitString full delim =
     (case dropWhile (\<lambda>c. c \<in> set delim) full of
        [] \<Rightarrow> []
      | c # cs \<Rightarrow>
          takeWhile (\<lambda>c. c \<notin> set delim) (c # cs)
            # SplitString (dropWhile (\<lambda>c. c \<notin> set delim) (c # cs)) delim)"
  by pat_completeness auto
termination
proof (relation "measure (\<lambda>(full, delim). length full)")
  show "wf (measure (\<lambda>(full, delim). length full))" by simp
next
  fix full delim :: string and c cs
  assume a: "dropWhile (\<lambda>c. c \<in> set delim) full = c # cs"
  have "c \<notin> set delim" using a by (metis hd_dropWhile list.discI list.sel(1))
  then have "length (dropWhile (\<lambda>c. c \<notin> set delim) (c # cs)) \<le> length cs"
    by (simp add: length_dropWhile_le)
  moreover have "length (c # cs) \<le> length full"
    using a length_dropWhile_le[of "\<lambda>c. c \<in> set delim" full] by simp
  ultimately show "((dropWhile (\<lambda>c. c \<notin> set delim) (c # cs), delim), (full, delim))
      \<in> measure (\<lambda>(full, delim). length full)"
    by simp
qed

text \<open>
  \<^verbatim>\<open>strtoll(value, &p, 10)\<close> of the C standard library: white space, an optional sign,
  decimal digits; the value is clamped to the 64-bit range; without a digit nothing is
  converted and \<open>p\<close> is \<open>value\<close>. The result is the number and the text from \<open>p\<close> on.
\<close>

definition isspace :: "char \<Rightarrow> bool" where
  "isspace c \<longleftrightarrow> c \<in> {CHR '' '', CHR 0x09, CHR 0x0A, CHR 0x0B, CHR 0x0C, CHR 0x0D}"

definition isdigit :: "char \<Rightarrow> bool" where
  "isdigit c \<longleftrightarrow> 48 \<le> (of_char c :: nat) \<and> (of_char c :: nat) \<le> 57"

definition strtoll :: "string \<Rightarrow> int \<times> string" where
  "strtoll nptr =
     (let s = dropWhile isspace nptr;
          neg = (s \<noteq> [] \<and> hd s = CHR ''-'');
          s = (if s \<noteq> [] \<and> (hd s = CHR ''-'' \<or> hd s = CHR ''+'') then tl s else s);
          ds = takeWhile isdigit s;
          v = foldl (\<lambda>a c. 10 * a + (int (of_char c) - 48)) 0 ds;
          v = (if neg then - v else v)
      in if ds = [] then (0, nptr)
         else (max (- (2 ^ 63)) (min (2 ^ 63 - 1) v), dropWhile isdigit s))"

record SymbolTableTextOptions =
  allow_negative_labels :: bool
  fst_field_separator :: string

text \<open>
  \<open>SymbolTableImpl::ReadText\<close>. The outer option is \<open>None\<close> when the call does not
  return; the inner one is the pointer returned, \<open>None\<close> for \<open>nullptr\<close>. The messages of
  \<open>LOG(ERROR)\<close> and the line counter they print are not modelled.
\<close>

function ReadText_loop ::
  "str_hash \<Rightarrow> SymbolTableTextOptions \<Rightarrow> SymbolTableImpl \<Rightarrow> string \<Rightarrow> SymbolTableImpl option option" where
  "ReadText_loop h opts impl strm =
     (case getline strm kLineLen of
        None \<Rightarrow> Some (Some impl)
      | Some (line, strm') \<Rightarrow>
          let separator = fst_field_separator opts @ [CHR 0x0A];
              col = SplitString (c_str line) separator
          in if col = [] then ReadText_loop h opts impl strm'
             else if length col \<noteq> 2 then Some None
             else
               let symbol = col ! 0;
                   value = col ! 1;
                   (key, p) = strtoll value
               in if p \<noteq> [] \<or> (\<not> allow_negative_labels opts \<and> key < 0) \<or> key = kNoSymbol
                  then Some None
                  else case AddSymbol h impl symbol key of
                         None \<Rightarrow> None
                       | Some (impl', _) \<Rightarrow> ReadText_loop h opts impl' strm')"
  by pat_completeness auto
termination
  by (relation "measure (\<lambda>(h, opts, impl, strm). length strm)")
    (auto simp: getline_def Let_def split: if_splits)

definition ReadText ::
  "str_hash \<Rightarrow> string \<Rightarrow> string \<Rightarrow> SymbolTableTextOptions \<Rightarrow> SymbolTableImpl option option" where
  "ReadText h strm source opts = ReadText_loop h opts (SymbolTableImpl_new source) strm"

section \<open>Invariants of the interning index\<close>

text \<open>
  \<open>first_empty bs start d\<close>: probing from \<open>start\<close>, the first empty bucket is met after
  \<open>d\<close> steps.
\<close>

definition first_empty :: "int list \<Rightarrow> nat \<Rightarrow> nat \<Rightarrow> bool" where
  "first_empty bs start d \<longleftrightarrow>
     bs ! ((start + d) mod length bs) = kEmptyBucket \<and>
     (\<forall>j<d. bs ! ((start + j) mod length bs) \<noteq> kEmptyBucket)"

text \<open>
  The buckets index the symbols: their number is a power of two and the mask is that
  number minus one; the symbols are distinct; a bucket is empty or holds a position; as
  many buckets are used as there are symbols; and every symbol's position is met by
  probing from its hash before any empty bucket.
\<close>

definition ht_ok :: "str_hash \<Rightarrow> string list \<Rightarrow> int list \<Rightarrow> nat \<Rightarrow> bool" where
  "ht_ok h syms bs msk \<longleftrightarrow>
     (\<exists>k. length bs = 2 ^ k) \<and> msk = length bs - 1 \<and> distinct syms \<and>
     (\<forall>j<length bs. bs ! j = kEmptyBucket \<or> (0 \<le> bs ! j \<and> nat (bs ! j) < length syms)) \<and>
     length (filter (\<lambda>b. b \<noteq> kEmptyBucket) bs) = length syms \<and>
     (\<forall>i<length syms. \<exists>d. bs ! ((h (syms ! i) + d) mod length bs) = int i \<and>
        (\<forall>j<d. bs ! ((h (syms ! i) + j) mod length bs) \<noteq> kEmptyBucket))"

definition dsm_ok :: "str_hash \<Rightarrow> DenseSymbolMap \<Rightarrow> bool" where
  "dsm_ok h m \<longleftrightarrow>
     ht_ok h (dsm_symbols m) (buckets m) (hash_mask m) \<and>
     length (dsm_symbols m) < length (buckets m) \<and> 4 \<le> length (buckets m)"

section \<open>Invariants of the table, and the notions the properties are stated with\<close>

text \<open>\<open>has_key t k\<close>: the key is in the dense range or in the sparse map.\<close>

definition has_key :: "SymbolTableImpl \<Rightarrow> int \<Rightarrow> bool" where
  "has_key t k \<longleftrightarrow> (0 \<le> k \<and> k < dense_key_limit t) \<or> map_of (key_map t) k \<noteq> None"

text \<open>
  The invariant every table built by \<open>AddSymbol\<close> and \<open>RemoveSymbol\<close> satisfies: the
  interning index is well formed; the dense limit is between zero and the number of
  symbols; \<open>idx_key_\<close> has one entry for each position beyond the dense range; the sparse
  map is sorted by key, never holds the sentinel, and maps distinct keys to distinct
  positions of the sparse region.
\<close>

definition table_ok :: "str_hash \<Rightarrow> SymbolTableImpl \<Rightarrow> bool" where
  "table_ok h t \<longleftrightarrow>
     dsm_ok h (symbols t) \<and>
     0 \<le> dense_key_limit t \<and> dense_key_limit t \<le> int (Size (symbols t)) \<and>
     length (idx_key t) = Size (symbols t) - nat (dense_key_limit t) \<and>
     sorted_wrt (<) (map fst (key_map t)) \<and> distinct (map snd (key_map t)) \<and>
     (\<forall>(k, p) \<in> set (key_map t).
        k \<noteq> kNoSymbol \<and> dense_key_limit t \<le> p \<and> p < int (Size (symbols t)))"

text \<open>
  \<open>keys_unique t\<close>: no key of the sparse map lies inside the dense range, so that no key
  is held twice (the fourth invariant of the spec's data model). \<open>AddSymbol\<close> does not
  check it: adding a new symbol under a key of the dense range breaks it.
\<close>

definition keys_unique :: "SymbolTableImpl \<Rightarrow> bool" where
  "keys_unique t \<longleftrightarrow> (\<forall>(k, p) \<in> set (key_map t). k < 0 \<or> dense_key_limit t \<le> k)"

text \<open>A sequence of \<open>AddSymbol\<close> calls, as the loops of \<open>Read\<close> and of a caller make them.\<close>

fun AddSymbols ::
  "str_hash \<Rightarrow> SymbolTableImpl \<Rightarrow> (string \<times> int) list \<Rightarrow> SymbolTableImpl option" where
  "AddSymbols h t [] = Some t"
| "AddSymbols h t ((symbol, key) # rest) =
     (case AddSymbol h t symbol key of
        None \<Rightarrow> None
      | Some (t', _) \<Rightarrow> AddSymbols h t' rest)"

text \<open>
  A hash function to run the model on concrete tables: the sum of the bytes of the string.
\<close>

definition sample_hash :: str_hash where
  "sample_hash s = sum_list (map of_char s)"

text \<open>A digest to run the model on concrete tables: the bytes fed, unchanged.\<close>

definition sample_digest :: digest where
  "sample_digest calls = concat calls"

text \<open>
  The word of the spec on the two digests. The content digest is taken over every symbol
  in storage order, each followed by one zero byte. The labeled digest is taken over the
  line \<open>symbol, tab, key\<close> of every key of the dense range in order, then of every entry
  of the sparse map in ascending key order whose key is not below the dense limit.
\<close>

definition content_updates :: "SymbolTableImpl \<Rightarrow> string list" where
  "content_updates t = concat (map (\<lambda>s. [s, [CHR 0x00]]) (dsm_symbols (symbols t)))"

definition labeled_line :: "SymbolTableImpl \<Rightarrow> int \<Rightarrow> int \<Rightarrow> string" where
  "labeled_line t pos key = GetSymbol (symbols t) (nat pos) @ [CHR 0x09] @ show_int key"

definition labeled_updates :: "SymbolTableImpl \<Rightarrow> string list" where
  "labeled_updates t =
     map (\<lambda>i. labeled_line t i i) [0..dense_key_limit t - 1] @
     map (\<lambda>(k, p). labeled_line t p k)
       (filter (\<lambda>(k, p). dense_key_limit t \<le> k) (key_map t))"

section \<open>Concrete tables\<close>

text \<open>The table holding \<open>a\<close> under key \<open>0\<close>.\<close>

definition table_a :: SymbolTableImpl where
  "table_a = the (AddSymbols sample_hash (SymbolTableImpl_new ''t'') [(''a'', 0)])"

section \<open>Correctness of the interning index\<close>

lemma and_msk: "length (bs::int list) = 2 ^ k \<Longrightarrow> x AND (length bs - 1) = (x::nat) mod length bs"
proof -
  have "x AND (2 ^ k - 1) = x mod 2 ^ k"
    by (metis mask_eq_exp_minus_1 take_bit_eq_mask take_bit_eq_mod)
  then show "length bs = 2 ^ k \<Longrightarrow> ?thesis" by simp
qed

lemma first_empty_mod: "first_empty bs (start mod length bs) d = first_empty bs start d"
  by (simp add: first_empty_def mod_add_left_eq)

lemma first_empty_Suc:
  "first_empty bs start (Suc d) \<Longrightarrow> first_empty bs (Suc start) d"
  by (auto simp: first_empty_def)

lemma ex_first_empty:
  assumes "e < length bs" "bs ! e = kEmptyBucket"
  shows "\<exists>d. first_empty bs start d"
proof -
  let ?n = "length bs"
  let ?P = "\<lambda>d. bs ! ((start + d) mod ?n) = kEmptyBucket"
  have "(start + (e + (?n - start mod ?n))) mod ?n = e"
  proof -
    have "(start + (e + (?n - start mod ?n))) mod ?n = (start mod ?n + (e + (?n - start mod ?n))) mod ?n"
      by (simp add: mod_add_left_eq)
    also have "start mod ?n + (e + (?n - start mod ?n)) = e + ?n"
    proof -
      have "0 < ?n" using assms(1) by (cases bs) simp_all
      then have "start mod ?n < ?n" by (rule mod_less_divisor)
      then show ?thesis by simp
    qed
    also have "(e + ?n) mod ?n = e" using assms(1) by simp
    finally show ?thesis .
  qed
  then have "?P (e + (?n - start mod ?n))" using assms(2) by simp
  then obtain d where "?P d" "\<forall>j<d. \<not> ?P j"
    using exists_least_iff[of ?P] by blast
  then show ?thesis by (auto simp: first_empty_def)
qed

lemma Rehash_probe_first_empty:
  assumes "length bs = 2 ^ k"
  shows "start < length bs \<Longrightarrow> first_empty bs start d \<Longrightarrow>
         Rehash_probe bs (length bs - 1) start = Some ((start + d) mod length bs)"
proof (induction d arbitrary: start)
  case 0
  then show ?case
    by (subst Rehash_probe.simps) (simp add: first_empty_def)
next
  case (Suc d)
  have ne: "bs ! start \<noteq> kEmptyBucket"
    using Suc.prems by (auto simp: first_empty_def dest: spec[of _ 0])
  have "first_empty bs (Suc start mod length bs) d"
    using first_empty_Suc[OF Suc.prems(2)] by (simp add: first_empty_mod)
  moreover have "Suc start mod length bs < length bs"
    using Suc.prems(1) by (intro mod_less_divisor) (cases bs, simp_all)
  ultimately have "Rehash_probe bs (length bs - 1) (Suc start mod length bs)
      = Some ((Suc start mod length bs + d) mod length bs)"
    by (rule Suc.IH[rotated])
  moreover have "(start + 1) AND (length bs - 1) = Suc start mod length bs"
    using and_msk[OF assms, of "start + 1"] by simp
  ultimately show ?case
    using ne by (subst Rehash_probe.simps) (simp add: mod_add_left_eq)
qed

lemma pow2_pos: "length (bs::int list) = 2 ^ k \<Longrightarrow> 0 < length bs"
  by simp

lemma filter_update_count:
  "idx < length bs \<Longrightarrow> bs ! idx = e \<Longrightarrow> v \<noteq> e \<Longrightarrow>
   length (filter (\<lambda>b. b \<noteq> e) (bs[idx := v])) = Suc (length (filter (\<lambda>b. b \<noteq> e) bs))"
proof (induction bs arbitrary: idx)
  case Nil
  then show ?case by simp
next
  case (Cons b bs)
  then show ?case by (cases idx) auto
qed

lemma ex_empty_bucket:
  assumes "length (filter (\<lambda>b. b \<noteq> e) bs) < length bs"
  shows "\<exists>j<length bs. bs ! j = e"
proof (rule ccontr)
  assume "\<not> ?thesis"
  then have "\<forall>b\<in>set bs. b \<noteq> e" by (auto simp: in_set_conv_nth)
  then have "filter (\<lambda>b. b \<noteq> e) bs = bs" by (simp add: filter_id_conv)
  with assms show False by simp
qed

lemma probe_miss:
  assumes "length bs = 2 ^ k"
    and "\<forall>j<length bs. bs ! j = kEmptyBucket \<or> (0 \<le> bs ! j \<and> nat (bs ! j) < length syms)"
    and "key \<notin> set syms"
  shows "start < length bs \<Longrightarrow> first_empty bs start d \<Longrightarrow>
         probe syms bs (length bs - 1) key start = Some (Inr ((start + d) mod length bs))"
proof (induction d arbitrary: start)
  case 0
  then show ?case
    by (subst probe.simps) (simp add: first_empty_def)
next
  case (Suc d)
  have ne: "bs ! start \<noteq> kEmptyBucket"
    using Suc.prems by (auto simp: first_empty_def dest: spec[of _ 0])
  with assms(2) Suc.prems(1) have "nat (bs ! start) < length syms" by auto
  with assms(3) have neq: "syms ! nat (bs ! start) \<noteq> key" by (metis nth_mem)
  have "first_empty bs (Suc start mod length bs) d"
    using first_empty_Suc[OF Suc.prems(2)] by (simp add: first_empty_mod)
  moreover have "Suc start mod length bs < length bs"
    using pow2_pos[OF assms(1)] by (rule mod_less_divisor)
  ultimately have "probe syms bs (length bs - 1) key (Suc start mod length bs)
      = Some (Inr ((Suc start mod length bs + d) mod length bs))"
    by (rule Suc.IH[rotated])
  moreover have "(start + 1) AND (length bs - 1) = Suc start mod length bs"
    using and_msk[OF assms(1), of "start + 1"] by simp
  ultimately show ?case
    using ne neq by (subst probe.simps) (simp add: mod_add_left_eq)
qed

lemma probe_hit:
  assumes "length bs = 2 ^ k"
    and "\<forall>j<length bs. bs ! j = kEmptyBucket \<or> (0 \<le> bs ! j \<and> nat (bs ! j) < length syms)"
    and "distinct syms" and "i < length syms" and "syms ! i = key"
  shows "start < length bs \<Longrightarrow> bs ! ((start + d) mod length bs) = int i \<Longrightarrow>
         \<forall>j<d. bs ! ((start + j) mod length bs) \<noteq> kEmptyBucket \<Longrightarrow>
         probe syms bs (length bs - 1) key start = Some (Inl (int i))"
proof (induction d arbitrary: start)
  case 0
  then show ?case
    using assms(5) by (subst probe.simps) (simp add: kEmptyBucket_def)
next
  case (Suc d)
  have ne: "bs ! start \<noteq> kEmptyBucket"
    using Suc.prems by (auto dest: spec[of _ 0])
  with assms(2) Suc.prems(1) have v: "0 \<le> bs ! start" "nat (bs ! start) < length syms" by auto
  show ?case
  proof (cases "syms ! nat (bs ! start) = key")
    case True
    with assms(3-5) v have "nat (bs ! start) = i" by (metis nth_eq_iff_index_eq)
    with v have "bs ! start = int i" by simp
    then show ?thesis
      using assms(5) by (subst probe.simps) (simp add: kEmptyBucket_def)
  next
    case False
    have "Suc start mod length bs < length bs"
      using pow2_pos[OF assms(1)] by (rule mod_less_divisor)
    moreover have "bs ! ((Suc start mod length bs + d) mod length bs) = int i"
      using Suc.prems(2) by (simp add: mod_add_left_eq)
    moreover have "\<forall>j<d. bs ! ((Suc start mod length bs + j) mod length bs) \<noteq> kEmptyBucket"
      using Suc.prems(3) by (auto simp: mod_add_left_eq dest: spec[of _ "Suc _"])
    ultimately have "probe syms bs (length bs - 1) key (Suc start mod length bs) = Some (Inl (int i))"
      by (rule Suc.IH)
    moreover have "(start + 1) AND (length bs - 1) = Suc start mod length bs"
      using and_msk[OF assms(1), of "start + 1"] by simp
    ultimately show ?thesis
      using ne False by (subst probe.simps) simp
  qed
qed

lemma ht_okI:
  "length bs = 2 ^ k \<Longrightarrow> msk = length bs - 1 \<Longrightarrow> distinct syms \<Longrightarrow>
   \<forall>j<length bs. bs ! j = kEmptyBucket \<or> (0 \<le> bs ! j \<and> nat (bs ! j) < length syms) \<Longrightarrow>
   length (filter (\<lambda>b. b \<noteq> kEmptyBucket) bs) = length syms \<Longrightarrow>
   \<forall>i<length syms. \<exists>d. bs ! ((h (syms ! i) + d) mod length bs) = int i \<and>
        (\<forall>j<d. bs ! ((h (syms ! i) + j) mod length bs) \<noteq> kEmptyBucket) \<Longrightarrow>
   ht_ok h syms bs msk"
  unfolding ht_ok_def by (intro conjI exI[of _ k]) assumption+

lemma ht_ok_insert:
  assumes ok: "ht_ok h syms bs msk" and new: "s \<notin> set syms"
    and fe: "first_empty bs (h s) d"
  shows "ht_ok h (syms @ [s]) (bs[(h s + d) mod length bs := int (length syms)]) msk"
proof -
  let ?n = "length bs"
  let ?idx = "(h s + d) mod ?n"
  let ?bs = "bs[?idx := int (length syms)]"
  from ok obtain k where k: "?n = 2 ^ k" by (auto simp: ht_ok_def)
  have pos: "0 < ?n" using k by simp
  have idx: "?idx < ?n" using pos by (rule mod_less_divisor)
  have e: "bs ! ?idx = kEmptyBucket" using fe by (simp add: first_empty_def)
  have upd: "\<And>j. j < ?n \<Longrightarrow> ?bs ! j = (if j = ?idx then int (length syms) else bs ! j)"
    by (simp add: nth_list_update)
  have vals: "\<forall>j<length ?bs. ?bs ! j = kEmptyBucket \<or>
      (0 \<le> ?bs ! j \<and> nat (?bs ! j) < length (syms @ [s]))"
  proof (intro allI impI)
    fix j assume "j < length ?bs"
    then have j: "j < ?n" by simp
    from ok j have "bs ! j = kEmptyBucket \<or> (0 \<le> bs ! j \<and> nat (bs ! j) < length syms)"
      by (simp add: ht_ok_def)
    then show "?bs ! j = kEmptyBucket \<or> (0 \<le> ?bs ! j \<and> nat (?bs ! j) < length (syms @ [s]))"
      using upd[OF j] by auto
  qed
  have cnt: "length (filter (\<lambda>b. b \<noteq> kEmptyBucket) ?bs) = length (syms @ [s])"
    using filter_update_count[OF idx e, of "int (length syms)"] ok
    by (simp add: ht_ok_def kEmptyBucket_def)
  have paths: "\<forall>i<length (syms @ [s]). \<exists>d'. ?bs ! ((h ((syms @ [s]) ! i) + d') mod length ?bs) = int i \<and>
        (\<forall>j<d'. ?bs ! ((h ((syms @ [s]) ! i) + j) mod length ?bs) \<noteq> kEmptyBucket)"
  proof (intro allI impI)
    fix i assume i: "i < length (syms @ [s])"
    show "\<exists>d'. ?bs ! ((h ((syms @ [s]) ! i) + d') mod length ?bs) = int i \<and>
        (\<forall>j<d'. ?bs ! ((h ((syms @ [s]) ! i) + j) mod length ?bs) \<noteq> kEmptyBucket)"
    proof (cases "i = length syms")
      case True
      have "?bs ! ((h s + d) mod ?n) = int i" using True idx by simp
      moreover have "\<forall>j<d. ?bs ! ((h s + j) mod ?n) \<noteq> kEmptyBucket"
      proof (intro allI impI)
        fix j assume "j < d"
        then have "bs ! ((h s + j) mod ?n) \<noteq> kEmptyBucket" using fe by (simp add: first_empty_def)
        moreover have "(h s + j) mod ?n < ?n" using pos by (rule mod_less_divisor)
        ultimately show "?bs ! ((h s + j) mod ?n) \<noteq> kEmptyBucket"
          using upd by (simp add: kEmptyBucket_def)
      qed
      ultimately show ?thesis using True by (intro exI[of _ d]) simp
    next
      case False
      with i have i': "i < length syms" by simp
      with ok obtain d' where d': "bs ! ((h (syms ! i) + d') mod ?n) = int i"
        "\<forall>j<d'. bs ! ((h (syms ! i) + j) mod ?n) \<noteq> kEmptyBucket"
        unfolding ht_ok_def by blast
      have "(h (syms ! i) + d') mod ?n \<noteq> ?idx" using d'(1) e by (auto simp: kEmptyBucket_def)
      then have "?bs ! ((h (syms ! i) + d') mod ?n) = int i" using d'(1) by simp
      moreover have "\<forall>j<d'. ?bs ! ((h (syms ! i) + j) mod ?n) \<noteq> kEmptyBucket"
      proof (intro allI impI)
        fix j assume "j < d'"
        then have "bs ! ((h (syms ! i) + j) mod ?n) \<noteq> kEmptyBucket" using d'(2) by simp
        moreover have "(h (syms ! i) + j) mod ?n < ?n" using pos by (rule mod_less_divisor)
        ultimately show "?bs ! ((h (syms ! i) + j) mod ?n) \<noteq> kEmptyBucket"
          using upd by (simp add: kEmptyBucket_def)
      qed
      ultimately show ?thesis using i' by (intro exI[of _ d']) (simp add: nth_append)
    qed
  qed
  have "length ?bs = 2 ^ k" using k by simp
  moreover have "msk = length ?bs - 1" using ok by (simp add: ht_ok_def)
  moreover have "distinct (syms @ [s])" using ok new by (simp add: ht_ok_def)
  ultimately show ?thesis
    using vals cnt paths by (rule ht_okI)
qed

lemma ht_ok_empty: "ht_ok h [] (replicate (2 ^ k) kEmptyBucket) (2 ^ k - 1)"
  by (simp add: ht_ok_def)

lemma ht_ok_first_empty:
  assumes "ht_ok h syms bs msk" "length syms < length bs"
  shows "\<exists>d. first_empty bs start d"
proof -
  from assms have "length (filter (\<lambda>b. b \<noteq> kEmptyBucket) bs) < length bs"
    unfolding ht_ok_def by linarith
  from ex_empty_bucket[OF this]
  obtain e where "e < length bs" "bs ! e = kEmptyBucket" by auto
  then show ?thesis by (rule ex_first_empty)
qed

lemma Rehash_fill_ok:
  assumes "distinct syms" "length syms < length bs0"
  shows "n = length syms - i \<Longrightarrow> i \<le> length syms \<Longrightarrow> length bs = length bs0 \<Longrightarrow>
         ht_ok h (take i syms) bs msk \<Longrightarrow>
         \<exists>bs'. Rehash_fill h syms msk [i..<length syms] bs = Some bs' \<and>
               ht_ok h syms bs' msk \<and> length bs' = length bs0"
proof (induction n arbitrary: i bs)
  case 0
  then show ?case by simp
next
  case (Suc n)
  let ?s = "syms ! i"
  from Suc.prems have i: "i < length syms" by simp
  from Suc.prems(4) obtain k where k: "length bs = 2 ^ k" and msk: "msk = length bs - 1"
    by (auto simp: ht_ok_def)
  have "length (take i syms) < length bs" using assms(2) Suc.prems(3) i by simp
  from ht_ok_first_empty[OF Suc.prems(4) this]
  obtain d where d: "first_empty bs (h ?s) d" by blast
  have pos: "0 < length bs" using k by simp
  have "Rehash_probe bs (length bs - 1) (h ?s mod length bs)
         = Some ((h ?s mod length bs + d) mod length bs)"
    by (rule Rehash_probe_first_empty[OF k mod_less_divisor[OF pos]])
       (simp add: first_empty_mod d)
  then have pr: "Rehash_probe bs msk (h ?s AND msk) = Some ((h ?s + d) mod length bs)"
    using and_msk[OF k, of "h ?s"] msk by (simp add: mod_add_left_eq)
  have new: "?s \<notin> set (take i syms)"
  proof
    assume "?s \<in> set (take i syms)"
    then obtain j where "j < i" "syms ! j = ?s" by (auto simp: in_set_conv_nth)
    with assms(1) i show False by (simp add: nth_eq_iff_index_eq)
  qed
  have tk: "take (Suc i) syms = take i syms @ [?s]"
    using i by (simp add: take_Suc_conv_app_nth)
  have ok': "ht_ok h (take (Suc i) syms) (bs[(h ?s + d) mod length bs := int i]) msk"
    using ht_ok_insert[OF Suc.prems(4) new d] i by (simp add: tk min_def)
  have "n = length syms - Suc i" "Suc i \<le> length syms"
    "length (bs[(h ?s + d) mod length bs := int i]) = length bs0"
    using Suc.prems i by simp_all
  from Suc.IH[OF this ok']
  obtain bs' where "Rehash_fill h syms msk [Suc i..<length syms] (bs[(h ?s + d) mod length bs := int i]) = Some bs'"
    "ht_ok h syms bs' msk" "length bs' = length bs0"
    by blast
  then show ?case
    using pr i by (simp add: upt_conv_Cons)
qed

lemma dsm_ok_new: "dsm_ok h DenseSymbolMap_new"
  using ht_ok_empty[of h 4] by (simp add: dsm_ok_def DenseSymbolMap_new_def)

lemma ht_ok_path:
  "ht_ok h syms bs msk \<Longrightarrow> i < length syms \<Longrightarrow>
   \<exists>d. bs ! ((h (syms ! i) + d) mod length bs) = int i \<and>
       (\<forall>j<d. bs ! ((h (syms ! i) + j) mod length bs) \<noteq> kEmptyBucket)"
  by (simp add: ht_ok_def)

lemma Rehash_ok:
  assumes "distinct (dsm_symbols m)" "length (dsm_symbols m) < 2 ^ k"
  shows "\<exists>m'. Rehash h m (2 ^ k) = Some m' \<and>
           ht_ok h (dsm_symbols m') (buckets m') (hash_mask m') \<and>
           dsm_symbols m' = dsm_symbols m \<and> length (buckets m') = 2 ^ k"
proof -
  let ?bs = "replicate (2 ^ k) kEmptyBucket"
  have "ht_ok h (take 0 (dsm_symbols m)) ?bs (2 ^ k - 1)"
    using ht_ok_empty[of h k] by simp
  moreover have "length (dsm_symbols m) < length ?bs" using assms(2) by simp
  ultimately obtain bs' where
    "Rehash_fill h (dsm_symbols m) (2 ^ k - 1) [0..<length (dsm_symbols m)] ?bs = Some bs'"
    "ht_ok h (dsm_symbols m) bs' (2 ^ k - 1)" "length bs' = length ?bs"
    using Rehash_fill_ok[OF assms(1), of ?bs "length (dsm_symbols m)" 0 ?bs h "2 ^ k - 1"]
    by auto
  then show ?thesis by (simp add: Rehash_def)
qed

lemma grow_ok:
  assumes "dsm_ok h m"
  shows "\<exists>m1. (if 3 * length (buckets m) \<le> 4 * Size m
              then Rehash h m (length (buckets m) * 2) else Some m) = Some m1 \<and>
           ht_ok h (dsm_symbols m1) (buckets m1) (hash_mask m1) \<and>
           dsm_symbols m1 = dsm_symbols m \<and>
           4 * length (dsm_symbols m) < 3 * length (buckets m1) \<and> 4 \<le> length (buckets m1)"
proof (cases "3 * length (buckets m) \<le> 4 * Size m")
  case True
  from assms obtain k where k: "length (buckets m) = 2 ^ k"
    by (auto simp: dsm_ok_def ht_ok_def)
  have d: "distinct (dsm_symbols m)" using assms by (simp add: dsm_ok_def ht_ok_def)
  have lt: "length (dsm_symbols m) < 2 ^ Suc k" using assms k by (simp add: dsm_ok_def)
  from Rehash_ok[OF d lt, of h] obtain m' where
    "Rehash h m (2 ^ Suc k) = Some m'"
    "ht_ok h (dsm_symbols m') (buckets m') (hash_mask m')"
    "dsm_symbols m' = dsm_symbols m" "length (buckets m') = 2 ^ Suc k"
    by blast
  then show ?thesis using True k assms by (simp add: dsm_ok_def mult.commute)
next
  case False
  then show ?thesis using assms by (simp add: dsm_ok_def Size_def)
qed

lemma InsertOrFind_found:
  assumes "dsm_ok h m" "i < length (dsm_symbols m)" "dsm_symbols m ! i = key"
  shows "\<exists>m1. InsertOrFind h m key = Some (m1, int i, False) \<and> dsm_ok h m1 \<and>
           dsm_symbols m1 = dsm_symbols m"
proof -
  from grow_ok[OF assms(1)] obtain m1 where m1:
    "(if 3 * length (buckets m) \<le> 4 * Size m
      then Rehash h m (length (buckets m) * 2) else Some m) = Some m1"
    "ht_ok h (dsm_symbols m1) (buckets m1) (hash_mask m1)"
    "dsm_symbols m1 = dsm_symbols m"
    "4 * length (dsm_symbols m) < 3 * length (buckets m1)" "4 \<le> length (buckets m1)"
    by blast
  let ?bs = "buckets m1" and ?syms = "dsm_symbols m1"
  from m1(2) obtain k where k: "length ?bs = 2 ^ k" and msk: "hash_mask m1 = length ?bs - 1"
    by (auto simp: ht_ok_def)
  have pos: "0 < length ?bs" using k by simp
  have "i < length ?syms" using assms(2) m1(3) by simp
  from ht_ok_path[OF m1(2) this] obtain d where d:
    "?bs ! ((h (?syms ! i) + d) mod length ?bs) = int i"
    "\<forall>j<d. ?bs ! ((h (?syms ! i) + j) mod length ?bs) \<noteq> kEmptyBucket"
    by blast
  have "probe ?syms ?bs (length ?bs - 1) key (h key mod length ?bs) = Some (Inl (int i))"
  proof (rule probe_hit[OF k _ _ _ _ mod_less_divisor[OF pos], where d = d])
    show "\<forall>j<length ?bs. ?bs ! j = kEmptyBucket \<or> (0 \<le> ?bs ! j \<and> nat (?bs ! j) < length ?syms)"
      using m1(2) by (simp add: ht_ok_def)
    show "distinct ?syms" using m1(2) by (simp add: ht_ok_def)
    show "i < length ?syms" using assms(2) m1(3) by simp
    show "?syms ! i = key" using assms(3) m1(3) by simp
    show "?bs ! ((h key mod length ?bs + d) mod length ?bs) = int i"
      using d(1) assms(3) m1(3) by (simp add: mod_add_left_eq)
    show "\<forall>j<d. ?bs ! ((h key mod length ?bs + j) mod length ?bs) \<noteq> kEmptyBucket"
      using d(2) assms(3) m1(3) by (simp add: mod_add_left_eq)
  qed
  then have "probe ?syms ?bs (hash_mask m1) key (GetHash h m1 key) = Some (Inl (int i))"
    using and_msk[OF k, of "h key"] msk by (simp add: GetHash_def)
  then have "InsertOrFind h m key = Some (m1, int i, False)"
    using m1(1) by (simp add: InsertOrFind_def)
  moreover have "dsm_ok h m1" using m1 by (simp add: dsm_ok_def)
  ultimately show ?thesis using m1(3) by simp
qed

lemma InsertOrFind_new:
  assumes "dsm_ok h m" "key \<notin> set (dsm_symbols m)"
  shows "\<exists>m'. InsertOrFind h m key = Some (m', int (length (dsm_symbols m)), True) \<and>
           dsm_ok h m' \<and> dsm_symbols m' = dsm_symbols m @ [key]"
proof -
  from grow_ok[OF assms(1)] obtain m1 where m1:
    "(if 3 * length (buckets m) \<le> 4 * Size m
      then Rehash h m (length (buckets m) * 2) else Some m) = Some m1"
    "ht_ok h (dsm_symbols m1) (buckets m1) (hash_mask m1)"
    "dsm_symbols m1 = dsm_symbols m"
    "4 * length (dsm_symbols m) < 3 * length (buckets m1)" "4 \<le> length (buckets m1)"
    by blast
  let ?bs = "buckets m1" and ?syms = "dsm_symbols m1"
  from m1(2) obtain k where k: "length ?bs = 2 ^ k" and msk: "hash_mask m1 = length ?bs - 1"
    by (auto simp: ht_ok_def)
  have pos: "0 < length ?bs" using k by simp
  have lt: "length ?syms < length ?bs" using m1(3,4) by simp
  from ht_ok_first_empty[OF m1(2) lt] obtain d where d: "first_empty ?bs (h key) d" by blast
  let ?idx = "(h key + d) mod length ?bs"
  have "probe ?syms ?bs (length ?bs - 1) key (h key mod length ?bs)
          = Some (Inr ((h key mod length ?bs + d) mod length ?bs))"
  proof (rule probe_miss[OF k _ _ mod_less_divisor[OF pos]])
    show "\<forall>j<length ?bs. ?bs ! j = kEmptyBucket \<or> (0 \<le> ?bs ! j \<and> nat (?bs ! j) < length ?syms)"
      using m1(2) by (simp add: ht_ok_def)
    show "key \<notin> set ?syms" using assms(2) m1(3) by simp
    show "first_empty ?bs (h key mod length ?bs) d" using d by (simp add: first_empty_mod)
  qed
  then have pr: "probe ?syms ?bs (hash_mask m1) key (GetHash h m1 key) = Some (Inr ?idx)"
    using and_msk[OF k, of "h key"] msk by (simp add: GetHash_def mod_add_left_eq)
  let ?m' = "m1\<lparr>buckets := ?bs[?idx := int (Size m1)], dsm_symbols := ?syms @ [key]\<rparr>"
  have res: "InsertOrFind h m key = Some (?m', int (length (dsm_symbols m)), True)"
    using m1(1,3) pr by (simp add: InsertOrFind_def Size_def Let_def)
  have "ht_ok h (?syms @ [key]) (?bs[?idx := int (length ?syms)]) (hash_mask m1)"
    using ht_ok_insert[OF m1(2) _ d] assms(2) m1(3) by simp
  then have "dsm_ok h ?m'" using m1(3,4,5) by (simp add: dsm_ok_def Size_def)
  then show ?thesis using res m1(3) by (intro exI[of _ ?m']) simp
qed

lemma erase_at_length: "idx < length xs \<Longrightarrow> length (erase_at xs idx) = length xs - 1"
  by (simp add: erase_at_def)

lemma erase_at_distinct:
  assumes "distinct xs"
  shows "distinct (erase_at xs idx)"
proof -
  have "distinct (take idx xs @ drop idx xs)" using assms by simp
  then have dj: "set (take idx xs) \<inter> set (drop idx xs) = {}"
    by (simp only: distinct_append)
  have "set (drop (Suc idx) xs) \<subseteq> set (drop idx xs)"
    by (rule set_drop_subset_set_drop) simp
  with dj have "set (take idx xs) \<inter> set (drop (Suc idx) xs) = {}" by blast
  then show ?thesis using assms by (simp add: erase_at_def)
qed

lemma DenseSymbolMap_RemoveSymbol_ok:
  assumes "dsm_ok h m" "idx < length (dsm_symbols m)"
  shows "\<exists>m'. DenseSymbolMap_RemoveSymbol h m idx = Some m' \<and> dsm_ok h m' \<and>
           dsm_symbols m' = erase_at (dsm_symbols m) idx"
proof -
  from assms obtain k where k: "length (buckets m) = 2 ^ k"
    by (auto simp: dsm_ok_def ht_ok_def)
  let ?m = "m\<lparr>dsm_symbols := erase_at (dsm_symbols m) idx\<rparr>"
  have d: "distinct (dsm_symbols ?m)"
    using assms(1) by (simp add: dsm_ok_def ht_ok_def erase_at_distinct)
  have "length (dsm_symbols m) < 2 ^ k" using assms(1) k by (simp add: dsm_ok_def)
  then have lt: "length (dsm_symbols ?m) < 2 ^ k"
    using assms(2) by (simp add: erase_at_length less_imp_diff_less)
  from Rehash_ok[OF d lt, of h] obtain m' where
    "Rehash h ?m (2 ^ k) = Some m'"
    "ht_ok h (dsm_symbols m') (buckets m') (hash_mask m')"
    "dsm_symbols m' = dsm_symbols ?m" "length (buckets m') = 2 ^ k"
    by blast
  then show ?thesis
    using assms k lt by (simp add: DenseSymbolMap_RemoveSymbol_def dsm_ok_def)
qed

section \<open>\<open>AddSymbol\<close>\<close>

lemma GetNthKey_symbols:
  "Size m = Size (symbols t) \<Longrightarrow> GetNthKey (t\<lparr>symbols := m\<rparr>) pos = GetNthKey t pos"
  by (simp add: GetNthKey_def)

lemma Find_symbols:
  "dsm_symbols m = dsm_symbols (symbols t) \<Longrightarrow> Find (t\<lparr>symbols := m\<rparr>) k = Find t k"
  by (auto simp: Find_def Size_def GetSymbol_def split: option.splits)

lemma AddSymbol_existing:
  assumes "dsm_ok h (symbols t)" "i < length (dsm_symbols (symbols t))"
    "dsm_symbols (symbols t) ! i = s" "key \<noteq> kNoSymbol"
  shows "\<exists>m. AddSymbol h t s key = Some (t\<lparr>symbols := m\<rparr>, GetNthKey t (int i)) \<and>
           dsm_ok h m \<and> dsm_symbols m = dsm_symbols (symbols t)"
proof -
  from InsertOrFind_found[OF assms(1-3)] obtain m where m:
    "InsertOrFind h (symbols t) s = Some (m, int i, False)" "dsm_ok h m"
    "dsm_symbols m = dsm_symbols (symbols t)"
    by blast
  have "GetNthKey (t\<lparr>symbols := m\<rparr>) (int i) = GetNthKey t (int i)"
    using m(3) by (simp add: GetNthKey_symbols Size_def)
  then have "AddSymbol h t s key = Some (t\<lparr>symbols := m\<rparr>, GetNthKey t (int i))"
    using assms(4) m(1) by (simp add: AddSymbol_def Let_def)
  then show ?thesis using m by blast
qed

lemma AddSymbol_new:
  assumes "dsm_ok h (symbols t)" "s \<notin> set (dsm_symbols (symbols t))" "key \<noteq> kNoSymbol"
  shows "\<exists>t'. AddSymbol h t s key = Some (t', key) \<and>
           dsm_ok h (symbols t') \<and> dsm_symbols (symbols t') = dsm_symbols (symbols t) @ [s] \<and>
           name t' = name t \<and> \<not> check_sum_finalized t' \<and>
           check_sum_string t' = check_sum_string t \<and>
           labeled_check_sum_string t' = labeled_check_sum_string t \<and>
           available_key t' =
             (if available_key t \<le> key then int64_of (key + 1) else available_key t) \<and>
           (if int64_of (key + 1) = int (Size (symbols t)) + 1 \<and> key = dense_key_limit t
            then dense_key_limit t' = dense_key_limit t + 1 \<and> key_map t' = key_map t \<and>
                 idx_key t' = idx_key t
            else dense_key_limit t' = dense_key_limit t \<and>
                 key_map t' = map_assign (key_map t) key (int (Size (symbols t))) \<and>
                 idx_key t' = idx_key t @ [key])"
proof -
  from InsertOrFind_new[OF assms(1,2)] obtain m where m:
    "InsertOrFind h (symbols t) s = Some (m, int (length (dsm_symbols (symbols t))), True)"
    "dsm_ok h m" "dsm_symbols m = dsm_symbols (symbols t) @ [s]"
    by blast
  have sz: "int (Size m) = int (Size (symbols t)) + 1" using m(3) by (simp add: Size_def)
  show ?thesis
  proof (cases "int64_of (key + 1) = int (Size (symbols t)) + 1 \<and> key = dense_key_limit t")
    case True
    then show ?thesis
      using assms(3) m sz by (simp add: AddSymbol_def Let_def)
  next
    case False
    then show ?thesis
      using assms(3) m sz by (auto simp: AddSymbol_def Let_def)
  qed
qed

lemma AddSymbol_total:
  assumes "dsm_ok h (symbols t)"
  shows "\<exists>t' r. AddSymbol h t s key = Some (t', r) \<and> dsm_ok h (symbols t')"
proof (cases "key = kNoSymbol")
  case True
  then show ?thesis using assms by (simp add: AddSymbol_def)
next
  case False
  show ?thesis
  proof (cases "s \<in> set (dsm_symbols (symbols t))")
    case True
    then obtain i where "i < length (dsm_symbols (symbols t))" "dsm_symbols (symbols t) ! i = s"
      by (auto simp: in_set_conv_nth)
    from AddSymbol_existing[OF assms this False] show ?thesis by auto
  next
    case False
    from AddSymbol_new[OF assms this \<open>key \<noteq> kNoSymbol\<close>] show ?thesis by blast
  qed
qed

lemma AddSymbols_total:
  "dsm_ok h (symbols t) \<Longrightarrow> \<exists>t'. AddSymbols h t xs = Some t' \<and> dsm_ok h (symbols t')"
proof (induction xs arbitrary: t)
  case Nil
  then show ?case by simp
next
  case (Cons x xs)
  obtain s k where x: "x = (s, k)" by (cases x)
  from AddSymbol_total[OF Cons.prems, of s k] obtain t' r where
    "AddSymbol h t s k = Some (t', r)" "dsm_ok h (symbols t')" by blast
  with Cons.IH[of t'] x show ?case by simp
qed

lemma dsm_ok_SymbolTableImpl_new: "dsm_ok h (symbols (SymbolTableImpl_new nm))"
  by (simp add: SymbolTableImpl_new_def dsm_ok_new)

lemma table_a_ok: "dsm_ok sample_hash (symbols table_a)"
  using AddSymbols_total[OF dsm_ok_SymbolTableImpl_new, of sample_hash "''t''" "[(''a'', 0)]"]
  by (auto simp: table_a_def)

section \<open>The properties\<close>

text \<open>
  C10. For every table and every symbol, \<open>AddSymbol\<close> called with the reserved key
  \<open>kNoSymbol\<close> returns that key at once and leaves the table as it is: no symbol is
  inserted, no map is modified, \<open>available_key_\<close> keeps its value and the flag of the
  checksums is not cleared.
\<close>

theorem AddSymbol_kNoSymbol: "AddSymbol h t symbol kNoSymbol = Some (t, kNoSymbol)"
  by (simp add: AddSymbol_def)

theorem AddSymbol_kNoSymbol_witness:
  "AddSymbol sample_hash table_a ''b'' kNoSymbol = Some (table_a, kNoSymbol)"
  using AddSymbol_kNoSymbol[of sample_hash table_a "''b''"] by simp

text \<open>
  C2. In a table whose interning index is well formed, let \<open>symbol\<close> be stored at
  position \<open>i\<close>, so that its key is \<open>GetNthKey t i\<close>. For every requested key other than
  the sentinel, \<open>AddSymbol\<close> returns the key the symbol has, the number of symbols is
  unchanged, every key resolves to the symbol it resolved to, the maps and
  \<open>available_key_\<close> are unchanged, and the flag and the strings of the checksums are not
  touched.
\<close>

theorem AddSymbol_present:
  assumes "dsm_ok h (symbols t)" and "i < Size (symbols t)"
    and "GetSymbol (symbols t) i = symbol" and "key \<noteq> kNoSymbol"
  shows "\<exists>t'. AddSymbol h t symbol key = Some (t', GetNthKey t (int i)) \<and>
           Size (symbols t') = Size (symbols t) \<and>
           (\<forall>k. Find t' k = Find t k) \<and>
           (\<forall>pos. GetNthKey t' pos = GetNthKey t pos) \<and>
           dense_key_limit t' = dense_key_limit t \<and> key_map t' = key_map t \<and>
           idx_key t' = idx_key t \<and> available_key t' = available_key t \<and>
           check_sum_finalized t' = check_sum_finalized t \<and>
           check_sum_string t' = check_sum_string t \<and>
           labeled_check_sum_string t' = labeled_check_sum_string t"
proof -
  from assms(2,3) have "i < length (dsm_symbols (symbols t))" "dsm_symbols (symbols t) ! i = symbol"
    by (simp_all add: Size_def GetSymbol_def)
  from AddSymbol_existing[OF assms(1) this assms(4)] obtain m where m:
    "AddSymbol h t symbol key = Some (t\<lparr>symbols := m\<rparr>, GetNthKey t (int i))"
    "dsm_symbols m = dsm_symbols (symbols t)"
    by blast
  have "Size m = Size (symbols t)" using m(2) by (simp add: Size_def)
  then show ?thesis
    using m by (simp add: GetNthKey_symbols Find_symbols)
qed

theorem AddSymbol_present_witness:
  "dsm_ok sample_hash (symbols table_a) \<and> 0 < Size (symbols table_a) \<and>
   GetSymbol (symbols table_a) 0 = ''a'' \<and> (7::int) \<noteq> kNoSymbol \<and>
   GetNthKey table_a (int 0) = 0 \<and>
   (\<exists>t'. AddSymbol sample_hash table_a ''a'' 7 = Some (t', 0) \<and>
      Size (symbols t') = Size (symbols table_a) \<and> (\<forall>k. Find t' k = Find table_a k) \<and>
      check_sum_finalized t' = check_sum_finalized table_a)"
proof -
  have 1: "0 < Size (symbols table_a)" unfolding table_a_def by code_simp
  have 2: "GetSymbol (symbols table_a) 0 = ''a''" unfolding table_a_def by code_simp
  have 3: "(7::int) \<noteq> kNoSymbol" by (simp add: kNoSymbol_def)
  have 4: "GetNthKey table_a (int 0) = 0" unfolding table_a_def by code_simp
  show ?thesis
    using AddSymbol_present[OF table_a_ok 1 2 3] 1 2 3 4 table_a_ok by auto
qed

end
